theory Spec2Isabelle
  imports Main
begin

section \<open>Lineage classifier of \<^verbatim>\<open>lineage_parser.py\<close>\<close>

text \<open>
  The development embeds \<^verbatim>\<open>parse_lineage\<close> and its nested helper functions.
  The two input tables are taken as already read by \<^verbatim>\<open>csv.DictReader\<close>: a row of
  the marker table is a \<open>marker\<close>, a row of the variant table is a \<open>snp\<close>, and every
  column the script reads holds a string. The nested functions of the script read the
  variables of the enclosing call; here each of them receives these variables as
  arguments and returns the two report lists it appends to. A Python exception is a value
  \<open>Inl e\<close>: the script then writes neither output file.
\<close>

subsection \<open>Data\<close>

datatype error = KeyError string | IndexError | ValueError

record marker =
  Position :: string
  Lineage :: string
  Alt :: string

record snp =
  POS :: string
  ALT :: string

text \<open>\<open>tsv_report\<close> (rows of cells) and \<open>text_report\<close> (lines).\<close>

type_synonym reports = "string list list \<times> string list"

text \<open>\<open>sublin\<close>, \<open>prevlin\<close>, \<open>prevsub\<close> and the \<open>text_report\<close> the extraction appends to.\<close>

type_synonym detail = "string \<times> string list \<times> string list \<times> string list"

definition tribe_map :: "string \<rightharpoonup> string" where
  "tribe_map = map_of
     [(''1'', ''Indo-Oceanic''),
      (''2'', ''East-Asian''),
      (''3'', ''East-African-Indian''),
      (''4'', ''Euro-American''),
      (''5'', ''West-Africa 1''),
      (''6'', ''West-Africa 2''),
      (''7'', ''Ethiopian'')]"

text \<open>A Python dict keeps insertion order, which the loops over \<open>animal_map\<close> follow.\<close>

definition animal_map :: "(string \<times> string \<times> string) list" where
  "animal_map =
     [(''BCG'', ''Bovis-BCG'', ''M. bovis-BCG''),
      (''BOV'', ''Bovis'', ''M. bovis''),
      (''ORYX'', ''Oryx'', ''M. orygis''),
      (''CAP'', ''Caprae'', ''M. caprae'')]"

definition snp_tags_items :: "(string \<times> string) list" where
  "snp_tags_items =
     [(''931123'', ''linfour''),
      (''1759252'', ''hrv37''),
      (''2831482'', ''CAP''),
      (''2289073'', ''BOV''),
      (''8624'', ''BCG''),
      (''2726378'', ''ORYX'')]"

definition snp_tags :: "string \<rightharpoonup> string" where
  "snp_tags = map_of snp_tags_items"

definition tag_snps :: "string \<rightharpoonup> string" where
  "tag_snps = map_of (map (\<lambda>(k, v). (v, k)) snp_tags_items)"

subsection \<open>Built-ins of Python the script uses\<close>

text \<open>\<open>xs[i]\<close> for a non-negative literal index.\<close>

definition index :: "'a list \<Rightarrow> nat \<Rightarrow> error + 'a" where
  "index xs i = (if i < length xs then Inr (xs ! i) else Inl IndexError)"

text \<open>\<open>s.split(".")\<close>: the pieces between the dots, one piece for a string without dot.\<close>

fun split_dot :: "string \<Rightarrow> string list" where
  "split_dot [] = [[]]"
| "split_dot (c # cs) =
     (if c = CHR ''.'' then [] # split_dot cs
      else (case split_dot cs of
              [] \<Rightarrow> [[c]]
            | w # ws \<Rightarrow> (c # w) # ws))"

text \<open>\<open>max(xs, key=len)\<close>: the first element of greatest length; an empty list raises.\<close>

fun max_len :: "string list \<Rightarrow> error + string" where
  "max_len [] = Inl ValueError"
| "max_len (x # xs) =
     Inr (foldl (\<lambda>best y. if length best < length y then y else best) x xs)"

subsection \<open>Loading and evidence extraction\<close>

text \<open>The dict comprehension over the marker rows: a later row replaces an earlier one
  with the same position.\<close>

definition position_map_of :: "marker list \<Rightarrow> (string \<rightharpoonup> marker)" where
  "position_map_of markers = foldl (\<lambda>m mk. m(Position mk \<mapsto> mk)) Map.empty markers"

text \<open>
  \<open>snps\<close> is a Python set of strings, whose iteration order is not fixed by the program
  (string hashing is salted per process). The order in which one run iterates over it is
  the list \<open>snps_iter\<close>; \<open>tags\<close> is the set built from it.
\<close>

definition tags_of :: "string list \<Rightarrow> string set" where
  "tags_of snps_iter = set (List.map_filter snp_tags snps_iter)"

definition animals_of :: "string set \<Rightarrow> bool" where
  "animals_of tags = list_ex (\<lambda>(tag, short_species, species). tag \<in> tags) animal_map"

text \<open>Lines 156 to 158: one header line per animal tag present, in the order of \<open>animal_map\<close>.\<close>

fun animal_lines :: "(string \<times> string \<times> string) list \<Rightarrow> string set \<Rightarrow> string list
    \<Rightarrow> error + string list" where
  "animal_lines [] tags text_report = Inr text_report"
| "animal_lines ((tag, short_species, species) # rest) tags text_report =
     (if tag \<in> tags then
        (case tag_snps tag of
           None \<Rightarrow> Inl (KeyError tag)
         | Some pos \<Rightarrow>
             animal_lines rest tags
               (text_report @ [''SNP '' @ pos @ '' suggests '' @ species]))
      else animal_lines rest tags text_report)"

text \<open>The body of the loop of \<open>_get_lineage_detail\<close> for one variant call.\<close>

fun get_lineage_detail_step :: "(string \<rightharpoonup> marker) \<Rightarrow> snp \<Rightarrow> detail \<Rightarrow> error + detail" where
  "get_lineage_detail_step position_map s (sublin, prevlin, prevsub, text_report) =
     (case position_map (POS s) of
        None \<Rightarrow> Inr (sublin, prevlin, prevsub, text_report)
      | Some mk \<Rightarrow>
          (let lineage = Lineage mk; alt = Alt mk in
           if alt = ALT s then
             (if length lineage > 1 then
                (case max_len (prevsub @ [lineage]) of
                   Inl e \<Rightarrow> Inl e
                 | Inr sublin' \<Rightarrow>
                     Inr (sublin', prevlin, prevsub @ [lineage],
                          text_report @
                            [''SNP '' @ POS s @ '' suggests sub-lineage: '' @ lineage]))
              else
                Inr (sublin, prevlin @ [lineage], prevsub,
                     text_report @ [''SNP '' @ POS s @ '' suggests lineage: '' @ lineage]))
           else Inr (sublin, prevlin, prevsub, text_report)))"

fun get_lineage_detail_loop :: "(string \<rightharpoonup> marker) \<Rightarrow> snp list \<Rightarrow> detail \<Rightarrow> error + detail" where
  "get_lineage_detail_loop position_map [] st = Inr st"
| "get_lineage_detail_loop position_map (s # rest) st =
     (case get_lineage_detail_step position_map s st of
        Inl e \<Rightarrow> Inl e
      | Inr st' \<Rightarrow> get_lineage_detail_loop position_map rest st')"

definition get_lineage_detail :: "(string \<rightharpoonup> marker) \<Rightarrow> snp list \<Rightarrow> string list
    \<Rightarrow> error + detail" where
  "get_lineage_detail position_map snp_data text_report =
     get_lineage_detail_loop position_map snp_data ([], [], [], text_report)"

subsection \<open>Discordance checks\<close>

text \<open>The condition of the loop of \<open>_check_discordance\<close>:
  \<^verbatim>\<open>split_lin[0] != split_first[0] or split_lin[1] != split_first[1]\<close>,
  evaluated from left to right, the second comparison only when the first is false.\<close>

definition discordant :: "string list \<Rightarrow> string list \<Rightarrow> error + bool" where
  "discordant split_lin split_first =
     (case index split_lin 0 of Inl e \<Rightarrow> Inl e | Inr a0 \<Rightarrow>
       (case index split_first 0 of Inl e \<Rightarrow> Inl e | Inr b0 \<Rightarrow>
          if a0 \<noteq> b0 then Inr True
          else
           (case index split_lin 1 of Inl e \<Rightarrow> Inl e | Inr a1 \<Rightarrow>
             (case index split_first 1 of Inl e \<Rightarrow> Inl e | Inr b1 \<Rightarrow>
                Inr (a1 \<noteq> b1)))))"

fun check_discordance_loop :: "string list \<Rightarrow> string list \<Rightarrow> error + bool" where
  "check_discordance_loop split_first [] = Inr False"
| "check_discordance_loop split_first (sub # rest) =
     (case discordant (split_dot sub) split_first of
        Inl e \<Rightarrow> Inl e
      | Inr d \<Rightarrow> if d then Inr True else check_discordance_loop split_first rest)"

definition check_discordance :: "string \<Rightarrow> string list \<Rightarrow> error + (bool \<times> string list)" where
  "check_discordance sublin prevsub =
     (let split_first = split_dot sublin in
      case check_discordance_loop split_first prevsub of
        Inl e \<Rightarrow> Inl e
      | Inr discordance \<Rightarrow> Inr (discordance, split_first))"

text \<open>The condition of the loop of \<open>_check_sublin_discordance\<close>:
  \<^verbatim>\<open>split_lin[0] != prevlin[0] or split_lin[0] != split_first[0]\<close>.\<close>

definition sublin_discordant :: "string list \<Rightarrow> string list \<Rightarrow> string list \<Rightarrow> error + bool" where
  "sublin_discordant split_lin prevlin split_first =
     (case index split_lin 0 of Inl e \<Rightarrow> Inl e | Inr a0 \<Rightarrow>
       (case index prevlin 0 of Inl e \<Rightarrow> Inl e | Inr p0 \<Rightarrow>
          if a0 \<noteq> p0 then Inr True
          else
           (case index split_first 0 of Inl e \<Rightarrow> Inl e | Inr b0 \<Rightarrow>
              Inr (a0 \<noteq> b0))))"

fun check_sublin_discordance :: "string list \<Rightarrow> string list \<Rightarrow> string list \<Rightarrow> error + bool" where
  "check_sublin_discordance prevlin split_first [] = Inr False"
| "check_sublin_discordance prevlin split_first (sub # rest) =
     (case sublin_discordant (split_dot sub) prevlin split_first of
        Inl e \<Rightarrow> Inl e
      | Inr d \<Rightarrow> if d then Inr True else check_sublin_discordance prevlin split_first rest)"

text \<open>\<^verbatim>\<open>any(prevlin[0] != lin for lin in prevlin)\<close>: \<open>prevlin[0]\<close> is read once per
  element, so never on an empty list.\<close>

definition check_multiple_discordance :: "string list \<Rightarrow> bool" where
  "check_multiple_discordance prevlin =
     (case prevlin of [] \<Rightarrow> False | p0 # rest \<Rightarrow> list_ex (\<lambda>lin. p0 \<noteq> lin) prevlin)"

subsection \<open>Reporting\<close>

definition report_mixed_lineage :: "string \<Rightarrow> reports \<Rightarrow> error + reports" where
  "report_mixed_lineage sample_id r =
     (case r of (tsv_report, text_report) \<Rightarrow>
        Inr (tsv_report @ [[sample_id, ''mixed lineage(s)'', ''mixed lineage(s)'']],
             text_report @ [''no precise lineage inferred'']))"

definition report_tribe :: "string \<Rightarrow> bool \<Rightarrow> bool \<Rightarrow> string list \<Rightarrow> string \<Rightarrow> reports
    \<Rightarrow> error + reports" where
  "report_tribe sample_id discordance animals split_first tribe r =
     (if discordance \<or> animals then report_mixed_lineage sample_id r
      else
       (case r of (tsv_report, text_report) \<Rightarrow>
         (case tribe_map tribe of None \<Rightarrow> Inl (KeyError tribe) | Some name \<Rightarrow>
           (case index split_first 0 of Inl e \<Rightarrow> Inl e | Inr code \<Rightarrow>
              Inr (tsv_report @ [[sample_id, code, name]],
                   text_report @ [''Lineage: '' @ tribe @ '' '' @ name])))))"

definition report_linfour :: "string \<Rightarrow> bool \<Rightarrow> string set \<Rightarrow> reports \<Rightarrow> error + reports" where
  "report_linfour sample_id animals tags r =
     (if animals then report_mixed_lineage sample_id r
      else
       (case r of (tsv_report, text_report) \<Rightarrow>
          Inr (tsv_report @ [[sample_id, ''4'', ''Euro-American'']],
               text_report @ [''Absence of SNP 931123 suggests lineage 4'']
                 @ (if ''hrv37'' \<notin> tags
                    then [''Absence of SNP 1759252 suggests sublineage 4.9''] else [])
                 @ [''Lineage: 4 Euro-American''])))"

fun report_animals :: "(string \<times> string \<times> string) list \<Rightarrow> string \<Rightarrow> string set \<Rightarrow> reports
    \<Rightarrow> error + reports" where
  "report_animals [] sample_id tags (tsv_report, text_report) =
     Inr (tsv_report @
            [[sample_id, ''No Informative SNPs detected'', ''No Informative SNPs detected'']],
          text_report @ [''No Informative SNPs detected''])"
| "report_animals ((tag, short_species, species) # rest) sample_id tags (tsv_report, text_report) =
     (if tag \<in> tags then
        Inr (tsv_report @ [[sample_id, short_species, species]],
             text_report @ [''Lineage: '' @ short_species])
      else report_animals rest sample_id tags (tsv_report, text_report))"

definition report_prevlin :: "string \<Rightarrow> string list \<Rightarrow> reports \<Rightarrow> error + reports" where
  "report_prevlin sample_id prevlin r =
     (case r of (tsv_report, text_report) \<Rightarrow>
       (case index prevlin 0 of Inl e \<Rightarrow> Inl e | Inr p0 \<Rightarrow>
         (case tribe_map p0 of None \<Rightarrow> Inl (KeyError p0) | Some name \<Rightarrow>
            Inr (tsv_report @ [[sample_id, p0, name]],
                 text_report @ [''Lineage: '' @ p0 @ '' '' @ name]))))"

definition report_multiple_prevlin :: "string \<Rightarrow> bool \<Rightarrow> string list \<Rightarrow> reports
    \<Rightarrow> error + reports" where
  "report_multiple_prevlin sample_id discordance prevlin r =
     (if discordance then
        (case r of (tsv_report, text_report) \<Rightarrow>
           Inr (tsv_report @ [[sample_id, ''mixed lineage(s)'', ''mixed lineage(s)'']],
                text_report @
                  [''no concordance between predicted lineage and sublineage(s)'']))
      else report_prevlin sample_id prevlin r)"

subsection \<open>The resolver and the whole run\<close>

text \<open>Lines 161 to 178 of \<open>parse_lineage\<close>: the dispatch on the collected evidence.\<close>

definition resolve :: "string \<Rightarrow> string set \<Rightarrow> bool \<Rightarrow> string \<Rightarrow> string list \<Rightarrow> string list
    \<Rightarrow> reports \<Rightarrow> error + reports" where
  "resolve sample_id tags animals sublin prevlin prevsub r =
     (let split_first = (if prevsub \<noteq> [] \<and> sublin \<noteq> [] then split_dot sublin else [''NA'']) in
      if prevlin = [] then
        (case check_discordance sublin prevsub of
           Inl e \<Rightarrow> Inl e
         | Inr (discordance, split_first) \<Rightarrow>
             if length split_first > 1 then
               (case index split_first 0 of
                  Inl e \<Rightarrow> Inl e
                | Inr tribe \<Rightarrow> report_tribe sample_id discordance animals split_first tribe r)
             else if ''linfour'' \<notin> tags then report_linfour sample_id animals tags r
             else report_animals animal_map sample_id tags r)
      else if length prevlin = 1 then
        (if sublin \<noteq> [] then
           (case check_sublin_discordance prevlin split_first prevsub of
              Inl e \<Rightarrow> Inl e
            | Inr discordance \<Rightarrow>
               (case index prevlin 0 of
                  Inl e \<Rightarrow> Inl e
                | Inr tribe \<Rightarrow> report_tribe sample_id discordance animals split_first tribe r))
         else report_prevlin sample_id prevlin r)
      else
        report_multiple_prevlin sample_id (check_multiple_discordance prevlin) prevlin r)"

text \<open>
  \<open>parse_lineage\<close>, up to the two lists handed to the file writers. Its first argument
  is the iteration order of the set \<open>snps\<close> in this run; the others are the marker rows,
  the variant rows and the sample identifier.
\<close>

definition parse_lineage :: "string list \<Rightarrow> marker list \<Rightarrow> snp list \<Rightarrow> string
    \<Rightarrow> error + reports" where
  "parse_lineage snps_iter markers snp_data sample_id =
     (let position_map = position_map_of markers;
          tags = tags_of snps_iter;
          animals = animals_of tags;
          tsv_report = [[''Sample ID'', ''Lineage'', ''Lineage Name'']]
      in
      case animal_lines animal_map tags [] of
        Inl e \<Rightarrow> Inl e
      | Inr text_report \<Rightarrow>
         (case get_lineage_detail position_map snp_data text_report of
            Inl e \<Rightarrow> Inl e
          | Inr (sublin, prevlin, prevsub, text_report') \<Rightarrow>
              resolve sample_id tags animals sublin prevlin prevsub
                (tsv_report, text_report')))"

subsection \<open>Notions used to state the properties\<close>

text \<open>A variant call supports a marker: its position is a key of \<open>position_map\<close> and the
  marker's allele equals the observed one (the two tests of lines 44 and 49).\<close>

definition matched :: "(string \<rightharpoonup> marker) \<Rightarrow> snp \<Rightarrow> bool" where
  "matched position_map s =
     (case position_map (POS s) of None \<Rightarrow> False | Some mk \<Rightarrow> Alt mk = ALT s)"

text \<open>What the extraction loop maintains: \<open>prevlin\<close> holds the labels of at most one
  character, \<open>prevsub\<close> the longer ones, and \<open>sublin\<close> is empty or an element of
  \<open>prevsub\<close>.\<close>

definition detail_inv :: "detail \<Rightarrow> bool" where
  "detail_inv st = (case st of (sl, pl, ps, t) \<Rightarrow>
     list_all (\<lambda>l. length l \<le> 1) pl \<and> list_all (\<lambda>l. 1 < length l) ps \<and>
     (if ps = [] then sl = [] else sl \<in> set ps))"

text \<open>The first piece of \<open>label.split(".")\<close>, which is \<open>split_lin[0]\<close> in the checks.\<close>

definition top_level :: "string \<Rightarrow> string" where
  "top_level label = (case split_dot label of [] \<Rightarrow> [] | x # rest \<Rightarrow> x)"

section \<open>Auxiliary facts\<close>

subsection \<open>Splitting a label, the longest label\<close>

lemma split_dot_not_Nil: "split_dot s \<noteq> []"
  by (induction s) (auto split: list.splits)

lemma length_split_dot: "length (split_dot s) = Suc (length (filter (\<lambda>c. c = CHR ''.'') s))"
  by (induction s) (auto split: list.splits simp: split_dot_not_Nil)

lemma hd_split_dot: "hd (split_dot s) = takeWhile (\<lambda>c. c \<noteq> CHR ''.'') s"
  by (induction s) (auto split: list.splits simp: split_dot_not_Nil)

lemma depth_by_length:
  assumes "length (hd (split_dot l)) = 1"
  shows "1 < length l \<longleftrightarrow> 1 < length (split_dot l)"
proof (cases l)
  case Nil
  with assms show ?thesis by simp
next
  case (Cons c cs)
  from assms have "length (takeWhile (\<lambda>c. c \<noteq> CHR ''.'') l) = 1"
    unfolding hd_split_dot .
  with Cons have c: "c \<noteq> CHR ''.''" and tw: "takeWhile (\<lambda>c. c \<noteq> CHR ''.'') cs = []"
    by (auto split: if_splits)
  show ?thesis
  proof (cases cs)
    case Nil
    with Cons c show ?thesis by simp
  next
    case (Cons d ds)
    with tw have "d = CHR ''.''" by (auto split: if_splits)
    with Cons \<open>l = c # cs\<close> c show ?thesis by (simp add: length_split_dot)
  qed
qed

lemma foldl_longest:
  "foldl (\<lambda>best y. if length best < length y then y else best) x xs \<in> set (x # xs)"
  by (induction xs arbitrary: x) auto

lemma max_len_mem: "xs \<noteq> [] \<Longrightarrow> \<exists>z. max_len xs = Inr z \<and> z \<in> set xs"
  using foldl_longest by (cases xs) auto

subsection \<open>The extraction loop\<close>

lemma step_frame:
  "get_lineage_detail_step pm s (sl, pl, ps, t @ u) =
     (case get_lineage_detail_step pm s (sl, pl, ps, u) of
        Inl e \<Rightarrow> Inl e
      | Inr (sl', pl', ps', ls) \<Rightarrow> Inr (sl', pl', ps', t @ ls))"
  by (simp add: Let_def split: option.splits sum.splits)

lemma max_len_snoc: "\<exists>z. max_len (ps @ [l]) = Inr z \<and> z \<in> set (ps @ [l])"
  using max_len_mem [of "ps @ [l]"] by simp

lemma step_skip:
  "position_map (POS s) = None \<Longrightarrow> get_lineage_detail_step position_map s st = Inr st"
  by (cases st) simp

lemma step_mismatch:
  "position_map (POS s) = Some mk \<Longrightarrow> Alt mk \<noteq> ALT s \<Longrightarrow>
   get_lineage_detail_step position_map s st = Inr st"
  by (cases st) simp

lemma step_lin:
  "position_map (POS s) = Some mk \<Longrightarrow> Alt mk = ALT s \<Longrightarrow> \<not> 1 < length (Lineage mk) \<Longrightarrow>
   get_lineage_detail_step position_map s (sl, pl, ps, t) =
     Inr (sl, pl @ [Lineage mk], ps,
          t @ [''SNP '' @ POS s @ '' suggests lineage: '' @ Lineage mk])"
  by (simp add: Let_def)

lemma step_sub:
  assumes "position_map (POS s) = Some mk" "Alt mk = ALT s" "1 < length (Lineage mk)"
  shows "\<exists>z. z \<in> set (ps @ [Lineage mk]) \<and>
     get_lineage_detail_step position_map s (sl, pl, ps, t) =
       Inr (z, pl, ps @ [Lineage mk],
            t @ [''SNP '' @ POS s @ '' suggests sub-lineage: '' @ Lineage mk])"
proof -
  obtain z where "max_len (ps @ [Lineage mk]) = Inr z" "z \<in> set (ps @ [Lineage mk])"
    using max_len_snoc by blast
  with assms show ?thesis by (intro exI [of _ z]) (simp add: Let_def)
qed

lemma step_total: "\<exists>st'. get_lineage_detail_step pm s st = Inr st'"
proof (cases "pm (POS s)")
  case None
  then show ?thesis using step_skip by blast
next
  case (Some mk)
  obtain sl pl ps t where st: "st = (sl, pl, ps, t)" using prod_cases4 by blast
  show ?thesis
  proof (cases "Alt mk = ALT s")
    case False
    with Some show ?thesis using step_mismatch by blast
  next
    case True
    show ?thesis
    proof (cases "1 < length (Lineage mk)")
      case True
      with Some \<open>Alt mk = ALT s\<close> step_sub [of pm s mk ps sl pl t] show ?thesis
        unfolding st by blast
    next
      case False
      with Some \<open>Alt mk = ALT s\<close> step_lin [of pm s mk sl pl ps t] show ?thesis
        unfolding st by blast
    qed
  qed
qed

lemma loop_total: "\<exists>st'. get_lineage_detail_loop pm snps st = Inr st'"
proof (induction snps arbitrary: st)
  case Nil
  show ?case by (rule exI [of _ st]) simp
next
  case (Cons s rest)
  obtain st1 where "get_lineage_detail_step pm s st = Inr st1"
    using step_total by blast
  with Cons show ?case by simp
qed

lemma step_cases:
  obtains (skip) "\<not> matched pm s" "get_lineage_detail_step pm s (sl, pl, ps, t) = Inr (sl, pl, ps, t)"
  | (lin) l where "matched pm s" "\<not> 1 < length l"
      "get_lineage_detail_step pm s (sl, pl, ps, t) =
         Inr (sl, pl @ [l], ps, t @ [''SNP '' @ POS s @ '' suggests lineage: '' @ l])"
  | (sub) l z where "matched pm s" "1 < length l" "z \<in> set (ps @ [l])"
      "get_lineage_detail_step pm s (sl, pl, ps, t) =
         Inr (z, pl, ps @ [l], t @ [''SNP '' @ POS s @ '' suggests sub-lineage: '' @ l])"
proof (cases "pm (POS s)")
  case None
  then show ?thesis using skip step_skip by (simp add: matched_def)
next
  case (Some mk)
  show ?thesis
  proof (cases "Alt mk = ALT s")
    case False
    with Some show ?thesis using skip step_mismatch by (simp add: matched_def)
  next
    case True
    then have m: "matched pm s" using Some by (simp add: matched_def)
    show ?thesis
    proof (cases "1 < length (Lineage mk)")
      case True
      with Some \<open>Alt mk = ALT s\<close> step_sub [of pm s mk ps sl pl t] m sub show ?thesis
        by blast
    next
      case False
      with Some \<open>Alt mk = ALT s\<close> step_lin [of pm s mk sl pl ps t] m lin show ?thesis
        by blast
    qed
  qed
qed

lemma step_inv:
  assumes "get_lineage_detail_step pm s st = Inr st'" "detail_inv st"
  shows "detail_inv st'"
proof -
  obtain sl pl ps t where st: "st = (sl, pl, ps, t)" using prod_cases4 by blast
  show ?thesis
  proof (cases rule: step_cases [of pm s sl pl ps t])
    case skip
    with assms st show ?thesis by simp
  next
    case (lin l)
    with assms st show ?thesis by (auto simp: detail_inv_def)
  next
    case (sub l z)
    with assms st show ?thesis by (auto simp: detail_inv_def)
  qed
qed

lemma loop_inv:
  "get_lineage_detail_loop pm snps st = Inr st' \<Longrightarrow> detail_inv st \<Longrightarrow> detail_inv st'"
proof (induction snps arbitrary: st)
  case Nil
  then show ?case by simp
next
  case (Cons s rest)
  obtain st1 where s1: "get_lineage_detail_step pm s st = Inr st1"
    using step_total by blast
  with Cons.prems have "get_lineage_detail_loop pm rest st1 = Inr st'" by simp
  moreover have "detail_inv st1" using s1 Cons.prems(2) by (rule step_inv)
  ultimately show ?case by (rule Cons.IH)
qed

lemma step_count:
  assumes "get_lineage_detail_step pm s (sl, pl, ps, t) = Inr (sl', pl', ps', t')"
  shows "length pl' + length ps' = length pl + length ps + (if matched pm s then 1 else 0)
       \<and> length t' = length t + (if matched pm s then 1 else 0)"
  by (cases rule: step_cases [of pm s sl pl ps t]) (use assms in auto)

lemma loop_count:
  "get_lineage_detail_loop pm snps (sl, pl, ps, t) = Inr (sl', pl', ps', t') \<Longrightarrow>
   length pl' + length ps' = length pl + length ps + length (filter (matched pm) snps)
     \<and> length t' = length t + length (filter (matched pm) snps)"
proof (induction snps arbitrary: sl pl ps t)
  case Nil
  then show ?case by simp
next
  case (Cons s rest)
  obtain sl1 pl1 ps1 t1 where s1: "get_lineage_detail_step pm s (sl, pl, ps, t) = Inr (sl1, pl1, ps1, t1)"
    using step_total prod_cases4 by metis
  with Cons.prems have "get_lineage_detail_loop pm rest (sl1, pl1, ps1, t1) = Inr (sl', pl', ps', t')"
    by simp
  from Cons.IH [OF this] step_count [OF s1] show ?case by simp
qed

lemma loop_filter:
  "get_lineage_detail_loop pm snps st = get_lineage_detail_loop pm (filter (matched pm) snps) st"
proof (induction snps arbitrary: st)
  case Nil
  show ?case by simp
next
  case (Cons s rest)
  show ?case
  proof (cases "matched pm s")
    case True
    with Cons show ?thesis by (simp split: sum.splits)
  next
    case False
    then have "get_lineage_detail_step pm s st = Inr st"
      using step_skip step_mismatch by (auto simp: matched_def split: option.splits)
    with False Cons show ?thesis by simp
  qed
qed

lemma loop_frame:
  "get_lineage_detail_loop pm snps (sl, pl, ps, t @ u) =
     (case get_lineage_detail_loop pm snps (sl, pl, ps, u) of
        Inl e \<Rightarrow> Inl e
      | Inr (sl', pl', ps', ls) \<Rightarrow> Inr (sl', pl', ps', t @ ls))"
proof (induction snps arbitrary: sl pl ps u)
  case Nil
  show ?case by simp
next
  case (Cons s rest)
  obtain sl1 pl1 ps1 u1 where
    s1: "get_lineage_detail_step pm s (sl, pl, ps, u) = Inr (sl1, pl1, ps1, u1)"
    using step_total prod_cases4 by metis
  then have "get_lineage_detail_step pm s (sl, pl, ps, t @ u) = Inr (sl1, pl1, ps1, t @ u1)"
    by (simp only: step_frame [of pm s sl pl ps t u] sum.case prod.case)
  with s1 Cons.IH [of sl1 pl1 ps1 u1] show ?case
    by (simp del: get_lineage_detail_step.simps)
qed

subsection \<open>Tags, header lines and the decomposition of a run\<close>

lemma tags_of_iff: "t \<in> tags_of it \<longleftrightarrow> (\<exists>p\<in>set it. snp_tags p = Some t)"
  by (induction it) (auto simp: tags_of_def split: option.splits)

lemma snp_tags_Some: "snp_tags p = Some t \<longleftrightarrow> (p, t) \<in> set snp_tags_items"
  unfolding snp_tags_def by (rule map_of_eq_Some_iff) (simp add: snp_tags_items_def)

lemma tag_positions:
  "''linfour'' \<in> tags_of it \<longleftrightarrow> ''931123'' \<in> set it"
  "''hrv37'' \<in> tags_of it \<longleftrightarrow> ''1759252'' \<in> set it"
  "''CAP'' \<in> tags_of it \<longleftrightarrow> ''2831482'' \<in> set it"
  "''BOV'' \<in> tags_of it \<longleftrightarrow> ''2289073'' \<in> set it"
  "''BCG'' \<in> tags_of it \<longleftrightarrow> ''8624'' \<in> set it"
  "''ORYX'' \<in> tags_of it \<longleftrightarrow> ''2726378'' \<in> set it"
  by (simp_all add: tags_of_iff snp_tags_Some snp_tags_items_def)

lemma animals_of_iff:
  "animals_of tags \<longleftrightarrow> ''BCG'' \<in> tags \<or> ''BOV'' \<in> tags \<or> ''ORYX'' \<in> tags \<or> ''CAP'' \<in> tags"
  by (simp add: animals_of_def animal_map_def)

lemma animal_lines_total: "\<exists>header. animal_lines animal_map tags [] = Inr header"
  by (simp add: animal_map_def tag_snps_def snp_tags_items_def)

lemma animal_lines_none: "\<not> animals_of tags \<Longrightarrow> animal_lines animal_map tags [] = Inr []"
  by (simp add: animals_of_iff) (simp add: animal_map_def)

lemma parse_lineage_resolve:
  assumes "get_lineage_detail (position_map_of markers) snp_data [] = Inr (sublin, prevlin, prevsub, lines)"
    and "animal_lines animal_map (tags_of snps_iter) [] = Inr header"
  shows "parse_lineage snps_iter markers snp_data sample_id =
         resolve sample_id (tags_of snps_iter) (animals_of (tags_of snps_iter)) sublin prevlin prevsub
           ([[''Sample ID'', ''Lineage'', ''Lineage Name'']], header @ lines)"
proof -
  have "get_lineage_detail (position_map_of markers) snp_data header =
        Inr (sublin, prevlin, prevsub, header @ lines)"
    using assms(1) loop_frame [of "position_map_of markers" snp_data "[]" "[]" "[]" header "[]"]
    by (simp add: get_lineage_detail_def)
  with assms(2) show ?thesis by (simp add: parse_lineage_def Let_def)
qed

lemma detail_total:
  "\<exists>sublin prevlin prevsub lines. get_lineage_detail pm snp_data [] = Inr (sublin, prevlin, prevsub, lines)"
  unfolding get_lineage_detail_def using loop_total prod_cases4 by metis

lemma detail_invD:
  assumes "get_lineage_detail pm snp_data t = Inr (sublin, prevlin, prevsub, lines)"
  shows "list_all (\<lambda>l. length l \<le> 1) prevlin" "list_all (\<lambda>l. 1 < length l) prevsub"
    "prevsub = [] \<Longrightarrow> sublin = []" "prevsub \<noteq> [] \<Longrightarrow> sublin \<in> set prevsub"
proof -
  have "detail_inv ([], [], [], t)" by (simp add: detail_inv_def)
  with assms have "detail_inv (sublin, prevlin, prevsub, lines)"
    unfolding get_lineage_detail_def by (rule loop_inv)
  then show "list_all (\<lambda>l. length l \<le> 1) prevlin" "list_all (\<lambda>l. 1 < length l) prevsub"
    "prevsub = [] \<Longrightarrow> sublin = []" "prevsub \<noteq> [] \<Longrightarrow> sublin \<in> set prevsub"
    by (simp_all add: detail_inv_def)
qed

lemma detail_no_evidence:
  assumes "get_lineage_detail pm snp_data [] = Inr (sublin, [], [], lines)"
  shows "lines = []"
  using loop_count [of pm snp_data "[]" "[]" "[]" "[]" sublin "[]" "[]" lines] assms
  by (auto simp: get_lineage_detail_def)

subsection \<open>Runs without evidence\<close>

lemma dom_foldl_upd:
  "dom (foldl (\<lambda>m mk. m(Position mk \<mapsto> mk)) m0 markers) = dom m0 \<union> Position ` set markers"
  by (induction markers arbitrary: m0) auto

lemma dom_position_map_of: "dom (position_map_of markers) = Position ` set markers"
  by (simp add: position_map_of_def dom_foldl_upd)

lemma matched_dom: "matched pm s \<Longrightarrow> POS s \<in> dom pm"
  by (auto simp: matched_def split: option.splits)

lemma detail_no_match:
  assumes "POS ` set snp_data \<inter> Position ` set markers = {}"
  shows "get_lineage_detail (position_map_of markers) snp_data [] = Inr ([], [], [], [])"
proof -
  have "\<not> matched (position_map_of markers) s" if "s \<in> set snp_data" for s
    using that assms matched_dom [of "position_map_of markers" s]
    by (auto simp: dom_position_map_of)
  then have "filter (matched (position_map_of markers)) snp_data = []"
    by (simp add: filter_empty_conv)
  then show ?thesis
    unfolding get_lineage_detail_def
    using loop_filter [of "position_map_of markers" snp_data "([], [], [], [])"] by simp
qed

lemma resolve_no_evidence:
  "resolve sample_id tags animals [] [] [] r =
     (if ''linfour'' \<notin> tags then report_linfour sample_id animals tags r
      else report_animals animal_map sample_id tags r)"
  by (simp add: resolve_def check_discordance_def)

lemma report_animals_none:
  "\<not> animals_of tags \<Longrightarrow>
   report_animals animal_map sample_id tags (tsv_report, text_report) =
     Inr (tsv_report @
            [[sample_id, ''No Informative SNPs detected'', ''No Informative SNPs detected'']],
          text_report @ [''No Informative SNPs detected''])"
  by (simp add: animals_of_iff) (simp add: animal_map_def)

subsection \<open>The discordance checks\<close>

lemma check_multiple_discordance_iff:
  "check_multiple_discordance (l0 # rest) \<longleftrightarrow> (\<exists>l\<in>set rest. l \<noteq> l0)"
  by (auto simp: check_multiple_discordance_def list_ex_iff)

lemma index_top_level: "index (split_dot s) 0 = Inr (top_level s)"
  using split_dot_not_Nil [of s] by (cases "split_dot s") (simp_all add: index_def top_level_def)

lemma index_Cons_0: "index (x # xs) 0 = Inr x"
  by (simp add: index_def)

lemma sublin_discordant_eq:
  "sublin_discordant (split_dot sub) [l] (split_dot sublin) =
     Inr (top_level sub \<noteq> l \<or> top_level sub \<noteq> top_level sublin)"
  by (auto simp: sublin_discordant_def index_top_level index_Cons_0)

lemma check_sublin_discordance_eq:
  "check_sublin_discordance [l] (split_dot sublin) prevsub =
     Inr (list_ex (\<lambda>sub. top_level sub \<noteq> l \<or> top_level sub \<noteq> top_level sublin) prevsub)"
  by (induction prevsub) (auto simp: sublin_discordant_eq)

lemma sublin_discordance_iff:
  assumes "sublin \<in> set prevsub"
  shows "list_ex (\<lambda>sub. top_level sub \<noteq> l \<or> top_level sub \<noteq> top_level sublin) prevsub
     \<longleftrightarrow> \<not> list_all (\<lambda>sub. top_level sub = l) prevsub"
  using assms by (auto simp: list_ex_iff list_all_iff)

lemma resolve_single:
  assumes "prevsub \<noteq> []" "sublin \<in> set prevsub" "sublin \<noteq> []"
  shows "resolve sample_id tags animals sublin [l] prevsub r =
     report_tribe sample_id (\<not> list_all (\<lambda>sub. top_level sub = l) prevsub) animals
       (split_dot sublin) l r"
proof -
  have "check_sublin_discordance [l] (split_dot sublin) prevsub =
      Inr (\<not> list_all (\<lambda>sub. top_level sub = l) prevsub)"
    unfolding check_sublin_discordance_eq sublin_discordance_iff [OF assms(2)] ..
  with assms(1,3) show ?thesis
    by (simp add: resolve_def index_Cons_0)
qed

subsection \<open>Every report appends one row\<close>

lemma report_mixed_lineage_row:
  "report_mixed_lineage sample_id (tsv, text) = Inr (tsv', text') \<Longrightarrow> \<exists>row. tsv' = tsv @ [row]"
  by (auto simp: report_mixed_lineage_def)

lemma report_tribe_row:
  "report_tribe sample_id d an sf tribe (tsv, text) = Inr (tsv', text') \<Longrightarrow>
   \<exists>row. tsv' = tsv @ [row]"
  by (auto simp: report_tribe_def report_mixed_lineage_def split: if_splits option.splits sum.splits)

lemma report_linfour_row:
  "report_linfour sample_id an tags (tsv, text) = Inr (tsv', text') \<Longrightarrow>
   \<exists>row. tsv' = tsv @ [row]"
  by (auto simp: report_linfour_def report_mixed_lineage_def split: if_splits)

lemma report_animals_ok:
  "\<exists>row line. report_animals am sample_id tags (tsv, text) = Inr (tsv @ [row], text @ [line])"
  by (induction am sample_id tags "(tsv, text)" rule: report_animals.induct) auto

lemma report_animals_row:
  "report_animals am sample_id tags (tsv, text) = Inr (tsv', text') \<Longrightarrow>
   \<exists>row. tsv' = tsv @ [row]"
  using report_animals_ok [of am sample_id tags tsv "text"] by auto

lemma report_prevlin_row:
  "report_prevlin sample_id prevlin (tsv, text) = Inr (tsv', text') \<Longrightarrow>
   \<exists>row. tsv' = tsv @ [row]"
  by (auto simp: report_prevlin_def split: option.splits sum.splits)

lemma report_multiple_prevlin_row:
  "report_multiple_prevlin sample_id d prevlin (tsv, text) = Inr (tsv', text') \<Longrightarrow>
   \<exists>row. tsv' = tsv @ [row]"
  by (auto simp: report_multiple_prevlin_def dest: report_prevlin_row split: if_splits)

lemma resolve_row:
  assumes "resolve sample_id tags an sublin prevlin prevsub (tsv, text) = Inr (tsv', text')"
  shows "\<exists>row. tsv' = tsv @ [row]"
proof (cases "prevlin = []")
  case True
  obtain d sf where c: "check_discordance sublin prevsub = Inr (d, sf)"
    using assms True by (auto simp: resolve_def split: sum.splits)
  show ?thesis
  proof (cases "1 < length sf")
    case l: True
    then obtain tribe where "index sf 0 = Inr tribe" by (cases sf) (auto simp: index_def)
    with assms True c l have "report_tribe sample_id d an sf tribe (tsv, text) = Inr (tsv', text')"
      by (simp add: resolve_def)
    then show ?thesis by (rule report_tribe_row)
  next
    case l: False
    with assms True c have
      "(if ''linfour'' \<notin> tags then report_linfour sample_id an tags (tsv, text)
        else report_animals animal_map sample_id tags (tsv, text)) = Inr (tsv', text')"
      by (simp add: resolve_def)
    then show ?thesis
      using report_linfour_row report_animals_row by (auto split: if_splits)
  qed
next
  case False
  show ?thesis
  proof (cases "length prevlin = 1")
    case one: True
    show ?thesis
    proof (cases "sublin = []")
      case True
      with assms False one have "report_prevlin sample_id prevlin (tsv, text) = Inr (tsv', text')"
        by (simp add: resolve_def)
      then show ?thesis by (rule report_prevlin_row)
    next
      case ne: False
      with assms False one obtain d sf tribe where
        "report_tribe sample_id d an sf tribe (tsv, text) = Inr (tsv', text')"
        by (auto simp: resolve_def Let_def split: sum.splits)
      then show ?thesis by (rule report_tribe_row)
    qed
  next
    case many: False
    with assms False have
      "report_multiple_prevlin sample_id (check_multiple_discordance prevlin) prevlin (tsv, text)
         = Inr (tsv', text')"
      by (simp add: resolve_def)
    then show ?thesis by (rule report_multiple_prevlin_row)
  qed
qed

subsection \<open>Runs that do not raise\<close>

lemma two_components:
  assumes "2 \<le> length a"
  obtains a0 a1 rest where "a = a0 # a1 # rest"
proof (cases a)
  case Nil
  with assms show ?thesis by simp
next
  case (Cons a0 as)
  with assms that show ?thesis by (cases as) auto
qed

lemma discordant_first_two:
  assumes "2 \<le> length a" "2 \<le> length b"
  shows "discordant a b = Inr (take 2 a \<noteq> take 2 b)"
proof -
  obtain a0 a1 as where a: "a = a0 # a1 # as" using assms(1) by (rule two_components)
  obtain b0 b1 bs where b: "b = b0 # b1 # bs" using assms(2) by (rule two_components)
  show ?thesis unfolding a b
    by (auto simp: discordant_def index_def numeral_2_eq_2)
qed

lemma discordant_total:
  "2 \<le> length a \<Longrightarrow> 2 \<le> length b \<Longrightarrow> \<exists>d. discordant a b = Inr d"
  using discordant_first_two by blast

lemma check_discordance_loop_total:
  assumes "2 \<le> length sf" "list_all (\<lambda>sub. 2 \<le> length (split_dot sub)) prevsub"
  shows "\<exists>d. check_discordance_loop sf prevsub = Inr d"
  using assms(2)
proof (induction prevsub)
  case Nil
  show ?case by auto
next
  case (Cons sub rest)
  then obtain d where "discordant (split_dot sub) sf = Inr d"
    using discordant_total [of "split_dot sub" sf] assms(1) by auto
  with Cons show ?case by (cases d) auto
qed

lemma report_tribe_ok:
  assumes "tribe_map tribe = Some name" "sf \<noteq> []"
  shows "\<exists>row ls. report_tribe sample_id d an sf tribe (tsv, ls0) = Inr (tsv @ [row], ls)"
  using assms by (cases sf) (auto simp: report_tribe_def report_mixed_lineage_def index_Cons_0)

lemma report_prevlin_ok:
  assumes "tribe_map l0 = Some name"
  shows "\<exists>row ls. report_prevlin sample_id (l0 # rest) (tsv, ls0) = Inr (tsv @ [row], ls)"
  using assms by (simp add: report_prevlin_def index_Cons_0)

lemma resolve_ok:
  assumes inv: "prevsub = [] \<Longrightarrow> sublin = []" "prevsub \<noteq> [] \<Longrightarrow> sublin \<in> set prevsub"
    and lin: "list_all (\<lambda>l. l \<in> dom tribe_map) prevlin"
    and sub: "list_all (\<lambda>sub. 2 \<le> length (split_dot sub) \<and> top_level sub \<in> dom tribe_map) prevsub"
  shows "\<exists>row ls. resolve sample_id tags an sublin prevlin prevsub (tsv, ls0) = Inr (tsv @ [row], ls)"
proof (cases "prevsub = []")
  case True
  then have sl: "sublin = []" by (rule inv(1))
  show ?thesis
  proof (cases prevlin)
    case Nil
    have "\<exists>row ls. report_linfour sample_id an tags (tsv, ls0) = Inr (tsv @ [row], ls)"
      by (simp add: report_linfour_def report_mixed_lineage_def)
    moreover have "\<exists>row ls. report_animals animal_map sample_id tags (tsv, ls0) = Inr (tsv @ [row], ls)"
      using report_animals_ok by blast
    ultimately show ?thesis
      unfolding Nil True sl resolve_no_evidence by simp
  next
    case (Cons l0 rest)
    then obtain name where n: "tribe_map l0 = Some name" using lin by auto
    have p: "\<exists>row ls. report_prevlin sample_id (l0 # rest) (tsv, ls0) = Inr (tsv @ [row], ls)"
      using report_prevlin_ok [OF n] .
    show ?thesis
    proof (cases "rest = []")
      case r: True
      with p show ?thesis unfolding Cons True sl by (simp add: resolve_def)
    next
      case r: False
      with p show ?thesis unfolding Cons True sl
        by (simp add: resolve_def report_multiple_prevlin_def)
    qed
  qed
next
  case False
  then have mem: "sublin \<in> set prevsub" by (rule inv(2))
  with sub have wf: "2 \<le> length (split_dot sublin)" "top_level sublin \<in> dom tribe_map"
    by (auto simp: list_all_iff)
  then have ne: "sublin \<noteq> []" by auto
  have sfne: "split_dot sublin \<noteq> []" by (rule split_dot_not_Nil)
  show ?thesis
  proof (cases prevlin)
    case Nil
    have "list_all (\<lambda>sub. 2 \<le> length (split_dot sub)) prevsub"
      using sub by (auto simp: list_all_iff)
    then obtain d where d: "check_discordance_loop (split_dot sublin) prevsub = Inr d"
      using check_discordance_loop_total [OF wf(1)] by blast
    obtain name where "tribe_map (top_level sublin) = Some name" using wf(2) by auto
    from report_tribe_ok [OF this sfne, of sample_id d an tsv ls0]
    show ?thesis
      unfolding Nil using d wf(1)
      by (simp add: resolve_def check_discordance_def index_top_level)
  next
    case (Cons l0 rest)
    then obtain name where n: "tribe_map l0 = Some name" using lin by auto
    show ?thesis
    proof (cases "rest = []")
      case r: True
      from report_tribe_ok [OF n sfne]
      show ?thesis
        unfolding Cons r resolve_single [OF False mem ne] by blast
    next
      case r: False
      with report_prevlin_ok [OF n, of sample_id rest tsv ls0] show ?thesis
        unfolding Cons by (simp add: resolve_def report_multiple_prevlin_def)
    qed
  qed
qed

lemma discordant_sym: "discordant a b = discordant b a"
  by (auto simp: discordant_def index_def)

lemma hd_split_dot_top_level: "top_level l = hd (split_dot l)"
  using split_dot_not_Nil [of l] by (cases "split_dot l") (simp_all add: top_level_def)

lemma detail_frame:
  "get_lineage_detail pm snp_data text_report =
     (case get_lineage_detail pm snp_data [] of
        Inl e \<Rightarrow> Inl e
      | Inr (sl, pl, ps, ls) \<Rightarrow> Inr (sl, pl, ps, text_report @ ls))"
  using loop_frame [of pm snp_data "[]" "[]" "[]" text_report "[]"]
  by (simp add: get_lineage_detail_def)

section \<open>Properties of the classifier\<close>

text \<open>
  Claim C1, as the code has it. With exactly one lineage label \<open>l\<close> collected and no
  animal position observed, the verdict's lineage code is \<open>l\<close> when there is no
  sublineage label or the top-level component of every sublineage label is \<open>l\<close>.
  When the top-level component of some sublineage label differs from \<open>l\<close>,
  \<open>_report_tribe\<close> reports \<open>mixed lineage(s)\<close> instead.
\<close>

theorem single_lineage_with_sublineages:
  assumes "get_lineage_detail (position_map_of markers) snp_data [] = Inr (sublin, [l], prevsub, lines)"
    and "set snps_iter = POS ` set snp_data"
    and "POS ` set snp_data \<inter> {''2831482'', ''2289073'', ''8624'', ''2726378''} = {}"
  shows "(list_all (\<lambda>sub. top_level sub = l) prevsub \<longrightarrow>
           (\<forall>name. tribe_map l = Some name \<longrightarrow>
              parse_lineage snps_iter markers snp_data sample_id =
                Inr ([[''Sample ID'', ''Lineage'', ''Lineage Name''], [sample_id, l, name]],
                     lines @ [''Lineage: '' @ l @ '' '' @ name])))
       \<and> (\<not> list_all (\<lambda>sub. top_level sub = l) prevsub \<longrightarrow>
           parse_lineage snps_iter markers snp_data sample_id =
             Inr ([[''Sample ID'', ''Lineage'', ''Lineage Name''],
                   [sample_id, ''mixed lineage(s)'', ''mixed lineage(s)'']],
                  lines @ [''no precise lineage inferred'']))"
proof -
  have an: "\<not> animals_of (tags_of snps_iter)"
    using assms(2,3) by (auto simp: animals_of_iff tag_positions)
  note p = parse_lineage_resolve [OF assms(1) animal_lines_none [OF an], of sample_id]
  show ?thesis
  proof (cases "prevsub = []")
    case True
    then have "sublin = []" using detail_invD(3) [OF assms(1)] by simp
    with True show ?thesis
      unfolding p by (simp add: resolve_def report_prevlin_def index_Cons_0)
  next
    case False
    then have mem: "sublin \<in> set prevsub" using detail_invD(4) [OF assms(1)] by simp
    moreover have "list_all (\<lambda>l. 1 < length l) prevsub" using detail_invD(2) [OF assms(1)] .
    ultimately have ne: "sublin \<noteq> []" by (auto simp: list_all_iff)
    have tl: "list_all (\<lambda>sub. top_level sub = l) prevsub \<Longrightarrow> top_level sublin = l"
      using mem by (auto simp: list_all_iff)
    show ?thesis
      unfolding p resolve_single [OF False mem ne]
      using an tl
      by (auto simp: report_tribe_def report_mixed_lineage_def index_top_level)
  qed
qed

text \<open>
  Claim C1 as stated fails: lineage label \<open>4\<close> together with the sublineage label
  \<open>2.1\<close> and no animal tag gives \<open>mixed lineage(s)\<close>, not lineage code \<open>4\<close>.
\<close>

theorem single_lineage_discordant_counterexample:
  "parse_lineage [''10'', ''20'']
     [\<lparr>Position = ''10'', Lineage = ''4'', Alt = ''A''\<rparr>,
      \<lparr>Position = ''20'', Lineage = ''2.1'', Alt = ''C''\<rparr>]
     [\<lparr>POS = ''10'', ALT = ''A''\<rparr>, \<lparr>POS = ''20'', ALT = ''C''\<rparr>] ''S1'' =
   Inr ([[''Sample ID'', ''Lineage'', ''Lineage Name''],
         [''S1'', ''mixed lineage(s)'', ''mixed lineage(s)'']],
        [''SNP 10 suggests lineage: 4'', ''SNP 20 suggests sub-lineage: 2.1'',
         ''no precise lineage inferred''])"
  by (simp add: parse_lineage_def position_map_of_def tags_of_def animals_of_def animal_map_def
      snp_tags_def snp_tags_items_def get_lineage_detail_def resolve_def
      sublin_discordant_def index_def report_tribe_def report_mixed_lineage_def Let_def)

theorem single_lineage_with_sublineages_witness:
  "parse_lineage [''20'', ''10'']
     [\<lparr>Position = ''10'', Lineage = ''3'', Alt = ''A''\<rparr>,
      \<lparr>Position = ''20'', Lineage = ''3.1.2'', Alt = ''C''\<rparr>]
     [\<lparr>POS = ''10'', ALT = ''A''\<rparr>, \<lparr>POS = ''20'', ALT = ''C''\<rparr>] ''S1'' =
   Inr ([[''Sample ID'', ''Lineage'', ''Lineage Name''],
         [''S1'', ''3'', ''East-African-Indian'']],
        [''SNP 10 suggests lineage: 3'', ''SNP 20 suggests sub-lineage: 3.1.2'',
         ''Lineage: 3 East-African-Indian''])
   \<and> parse_lineage [''20'', ''10'']
     [\<lparr>Position = ''10'', Lineage = ''3'', Alt = ''A''\<rparr>,
      \<lparr>Position = ''20'', Lineage = ''1.2'', Alt = ''C''\<rparr>]
     [\<lparr>POS = ''10'', ALT = ''A''\<rparr>, \<lparr>POS = ''20'', ALT = ''C''\<rparr>] ''S1'' =
   Inr ([[''Sample ID'', ''Lineage'', ''Lineage Name''],
         [''S1'', ''mixed lineage(s)'', ''mixed lineage(s)'']],
        [''SNP 10 suggests lineage: 3'', ''SNP 20 suggests sub-lineage: 1.2'',
         ''no precise lineage inferred''])"
proof -
  have a: "get_lineage_detail
      (position_map_of [\<lparr>Position = ''10'', Lineage = ''3'', Alt = ''A''\<rparr>,
                        \<lparr>Position = ''20'', Lineage = ''3.1.2'', Alt = ''C''\<rparr>])
      [\<lparr>POS = ''10'', ALT = ''A''\<rparr>, \<lparr>POS = ''20'', ALT = ''C''\<rparr>] [] =
    Inr (''3.1.2'', [''3''], [''3.1.2''],
         [''SNP 10 suggests lineage: 3'', ''SNP 20 suggests sub-lineage: 3.1.2''])"
    by (simp add: get_lineage_detail_def position_map_of_def Let_def)
  have b: "get_lineage_detail
      (position_map_of [\<lparr>Position = ''10'', Lineage = ''3'', Alt = ''A''\<rparr>,
                        \<lparr>Position = ''20'', Lineage = ''1.2'', Alt = ''C''\<rparr>])
      [\<lparr>POS = ''10'', ALT = ''A''\<rparr>, \<lparr>POS = ''20'', ALT = ''C''\<rparr>] [] =
    Inr (''1.2'', [''3''], [''1.2''],
         [''SNP 10 suggests lineage: 3'', ''SNP 20 suggests sub-lineage: 1.2''])"
    by (simp add: get_lineage_detail_def position_map_of_def Let_def)
  have i: "set [''20'', ''10''] =
      POS ` set [\<lparr>POS = ''10'', ALT = ''A''\<rparr>, \<lparr>POS = ''20'', ALT = ''C''\<rparr>]"
    by auto
  have n: "POS ` set [\<lparr>POS = ''10'', ALT = ''A''\<rparr>, \<lparr>POS = ''20'', ALT = ''C''\<rparr>]
      \<inter> {''2831482'', ''2289073'', ''8624'', ''2726378''} = {}"
    by simp
  have t: "tribe_map ''3'' = Some ''East-African-Indian''" by (simp add: tribe_map_def)
  show ?thesis
    using single_lineage_with_sublineages [OF a i n, of "''S1''"]
      single_lineage_with_sublineages [OF b i n, of "''S1''"] t
    by (simp add: top_level_def)
qed

text \<open>
  Claim C2, as the code has it. When no position of the variant table is a key of the
  marker table and no animal position is observed, the verdict is never
  \<open>mixed lineage(s)\<close>. It is \<open>No Informative SNPs detected\<close> when position 931123 is
  observed, and the absence inference of lineage 4 when it is not; so with no special tag
  at all the verdict is lineage 4, \<open>Euro-American\<close>, with both absence notes.
\<close>

theorem no_match_no_animal_verdict:
  assumes "set snps_iter = POS ` set snp_data"
    and "POS ` set snp_data \<inter> Position ` set markers = {}"
    and "POS ` set snp_data \<inter> {''2831482'', ''2289073'', ''8624'', ''2726378''} = {}"
  shows "parse_lineage snps_iter markers snp_data sample_id =
      (if ''931123'' \<in> POS ` set snp_data then
         Inr ([[''Sample ID'', ''Lineage'', ''Lineage Name''],
               [sample_id, ''No Informative SNPs detected'', ''No Informative SNPs detected'']],
              [''No Informative SNPs detected''])
       else
         Inr ([[''Sample ID'', ''Lineage'', ''Lineage Name''],
               [sample_id, ''4'', ''Euro-American'']],
              [''Absence of SNP 931123 suggests lineage 4'']
                @ (if ''1759252'' \<in> POS ` set snp_data then []
                   else [''Absence of SNP 1759252 suggests sublineage 4.9''])
                @ [''Lineage: 4 Euro-American'']))"
proof -
  have an: "\<not> animals_of (tags_of snps_iter)"
    using assms(1,3) by (auto simp: animals_of_iff tag_positions)
  have t1: "''linfour'' \<in> tags_of snps_iter \<longleftrightarrow> ''931123'' \<in> POS ` set snp_data"
    using assms(1) by (simp add: tag_positions)
  have t2: "''hrv37'' \<in> tags_of snps_iter \<longleftrightarrow> ''1759252'' \<in> POS ` set snp_data"
    using assms(1) by (simp add: tag_positions)
  show ?thesis
    unfolding parse_lineage_resolve [OF detail_no_match [OF assms(2)] animal_lines_none [OF an]]
      resolve_no_evidence
    using an t1 t2 by (simp add: report_linfour_def report_animals_none)
qed

text \<open>
  Claim C2 as stated fails: one variant call at a position that is no marker and no special
  tag gives the lineage 4 verdict, not \<open>No Informative SNPs detected\<close>.
\<close>

theorem no_match_no_tag_counterexample:
  "POS ` set [\<lparr>POS = ''500'', ALT = ''T''\<rparr>]
     \<inter> Position ` set [\<lparr>Position = ''1000'', Lineage = ''2'', Alt = ''A''\<rparr>] = {}
   \<and> POS ` set [\<lparr>POS = ''500'', ALT = ''T''\<rparr>] \<inter> dom snp_tags = {}
   \<and> parse_lineage [''500'']
        [\<lparr>Position = ''1000'', Lineage = ''2'', Alt = ''A''\<rparr>]
        [\<lparr>POS = ''500'', ALT = ''T''\<rparr>] ''S1'' =
      Inr ([[''Sample ID'', ''Lineage'', ''Lineage Name''], [''S1'', ''4'', ''Euro-American'']],
           [''Absence of SNP 931123 suggests lineage 4'',
            ''Absence of SNP 1759252 suggests sublineage 4.9'',
            ''Lineage: 4 Euro-American''])"
  by (simp add: parse_lineage_def position_map_of_def tags_of_def animals_of_def animal_map_def
      snp_tags_def snp_tags_items_def get_lineage_detail_def resolve_def check_discordance_def
      report_linfour_def Let_def)

theorem no_match_no_animal_verdict_witness:
  "parse_lineage [''931123'', ''77'']
     [\<lparr>Position = ''1000'', Lineage = ''2'', Alt = ''A''\<rparr>]
     [\<lparr>POS = ''77'', ALT = ''T''\<rparr>, \<lparr>POS = ''931123'', ALT = ''C''\<rparr>] ''S2'' =
   Inr ([[''Sample ID'', ''Lineage'', ''Lineage Name''],
         [''S2'', ''No Informative SNPs detected'', ''No Informative SNPs detected'']],
        [''No Informative SNPs detected''])
   \<and> parse_lineage [''77'']
     [\<lparr>Position = ''1000'', Lineage = ''2'', Alt = ''A''\<rparr>]
     [\<lparr>POS = ''77'', ALT = ''T''\<rparr>] ''S2'' =
   Inr ([[''Sample ID'', ''Lineage'', ''Lineage Name''], [''S2'', ''4'', ''Euro-American'']],
        [''Absence of SNP 931123 suggests lineage 4'',
         ''Absence of SNP 1759252 suggests sublineage 4.9'',
         ''Lineage: 4 Euro-American''])"
proof -
  have a1: "set [''931123'', ''77''] =
      POS ` set [\<lparr>POS = ''77'', ALT = ''T''\<rparr>, \<lparr>POS = ''931123'', ALT = ''C''\<rparr>]"
    by auto
  have a2: "POS ` set [\<lparr>POS = ''77'', ALT = ''T''\<rparr>, \<lparr>POS = ''931123'', ALT = ''C''\<rparr>]
      \<inter> Position ` set [\<lparr>Position = ''1000'', Lineage = ''2'', Alt = ''A''\<rparr>] = {}"
    by simp
  have a3: "POS ` set [\<lparr>POS = ''77'', ALT = ''T''\<rparr>, \<lparr>POS = ''931123'', ALT = ''C''\<rparr>]
      \<inter> {''2831482'', ''2289073'', ''8624'', ''2726378''} = {}"
    by simp
  have b1: "set [''77''] = POS ` set [\<lparr>POS = ''77'', ALT = ''T''\<rparr>]" by simp
  have b2: "POS ` set [\<lparr>POS = ''77'', ALT = ''T''\<rparr>]
      \<inter> Position ` set [\<lparr>Position = ''1000'', Lineage = ''2'', Alt = ''A''\<rparr>] = {}"
    by simp
  have b3: "POS ` set [\<lparr>POS = ''77'', ALT = ''T''\<rparr>]
      \<inter> {''2831482'', ''2289073'', ''8624'', ''2726378''} = {}"
    by simp
  show ?thesis
    using no_match_no_animal_verdict [OF a1 a2 a3, of "''S2''"]
      no_match_no_animal_verdict [OF b1 b2 b3, of "''S2''"]
    by simp
qed

text \<open>
  Claim C3, as the code has it. When every collected lineage label is a key of
  \<open>tribe_map\<close> and every collected sublineage label has at least two dot-separated
  components, the first of them a key of \<open>tribe_map\<close>, the run returns without raising and
  appends exactly one verdict row to the header row. For any input whatever, a run that
  returns has appended exactly one verdict row; the other runs raise.
\<close>

theorem resolver_one_verdict:
  assumes "get_lineage_detail (position_map_of markers) snp_data [] =
             Inr (sublin, prevlin, prevsub, lines)"
  shows "(list_all (\<lambda>l. l \<in> dom tribe_map) prevlin \<and>
          list_all (\<lambda>sub. 2 \<le> length (split_dot sub) \<and> top_level sub \<in> dom tribe_map) prevsub
          \<longrightarrow> (\<exists>row ls. parse_lineage snps_iter markers snp_data sample_id =
                 Inr ([[''Sample ID'', ''Lineage'', ''Lineage Name''], row], ls)))
       \<and> (\<forall>tsv ls. parse_lineage snps_iter markers snp_data sample_id = Inr (tsv, ls)
            \<longrightarrow> (\<exists>row. tsv = [[''Sample ID'', ''Lineage'', ''Lineage Name''], row]))"
proof -
  obtain header where h: "animal_lines animal_map (tags_of snps_iter) [] = Inr header"
    using animal_lines_total by blast
  note p = parse_lineage_resolve [OF assms h, of sample_id]
  have "\<exists>row ls. parse_lineage snps_iter markers snp_data sample_id =
          Inr ([[''Sample ID'', ''Lineage'', ''Lineage Name''], row], ls)"
    if "list_all (\<lambda>l. l \<in> dom tribe_map) prevlin"
      "list_all (\<lambda>sub. 2 \<le> length (split_dot sub) \<and> top_level sub \<in> dom tribe_map) prevsub"
    unfolding p
    using resolve_ok [OF detail_invD(3) [OF assms] detail_invD(4) [OF assms] that,
        of sample_id "tags_of snps_iter" "animals_of (tags_of snps_iter)"
          "[[''Sample ID'', ''Lineage'', ''Lineage Name'']]" "header @ lines"]
    by simp
  moreover have "\<exists>row. tsv = [[''Sample ID'', ''Lineage'', ''Lineage Name''], row]"
    if "parse_lineage snps_iter markers snp_data sample_id = Inr (tsv, ls)" for tsv ls
    using that resolve_row [of sample_id "tags_of snps_iter" "animals_of (tags_of snps_iter)"
        sublin prevlin prevsub "[[''Sample ID'', ''Lineage'', ''Lineage Name'']]"
        "header @ lines" tsv ls]
    unfolding p by simp
  ultimately show ?thesis by blast
qed

text \<open>
  Claim C3 as stated fails: a single matched marker labelled \<open>8\<close>, which is no key of
  \<open>tribe_map\<close>, makes \<open>_report_prevlin\<close> raise \<open>KeyError\<close>, and no verdict is appended.
\<close>

theorem resolver_raises_counterexample:
  "parse_lineage [''10'']
     [\<lparr>Position = ''10'', Lineage = ''8'', Alt = ''A''\<rparr>]
     [\<lparr>POS = ''10'', ALT = ''A''\<rparr>] ''S1'' = Inl (KeyError ''8'')"
  by (simp add: parse_lineage_def position_map_of_def tags_of_def animals_of_def animal_map_def
      snp_tags_def snp_tags_items_def get_lineage_detail_def resolve_def
      index_def report_prevlin_def tribe_map_def Let_def)

theorem resolver_one_verdict_witness:
  "\<exists>row ls. parse_lineage [''30'', ''20'']
     [\<lparr>Position = ''20'', Lineage = ''4.3.1'', Alt = ''A''\<rparr>,
      \<lparr>Position = ''30'', Lineage = ''4.3.2'', Alt = ''C''\<rparr>]
     [\<lparr>POS = ''20'', ALT = ''A''\<rparr>, \<lparr>POS = ''30'', ALT = ''C''\<rparr>] ''S1'' =
   Inr ([[''Sample ID'', ''Lineage'', ''Lineage Name''], row], ls)"
proof -
  have h: "get_lineage_detail
      (position_map_of [\<lparr>Position = ''20'', Lineage = ''4.3.1'', Alt = ''A''\<rparr>,
                        \<lparr>Position = ''30'', Lineage = ''4.3.2'', Alt = ''C''\<rparr>])
      [\<lparr>POS = ''20'', ALT = ''A''\<rparr>, \<lparr>POS = ''30'', ALT = ''C''\<rparr>] [] =
    Inr (''4.3.1'', [], [''4.3.1'', ''4.3.2''],
         [''SNP 20 suggests sub-lineage: 4.3.1'', ''SNP 30 suggests sub-lineage: 4.3.2''])"
    by (simp add: get_lineage_detail_def position_map_of_def Let_def)
  have w: "list_all (\<lambda>l. l \<in> dom tribe_map) [] \<and>
      list_all (\<lambda>sub. 2 \<le> length (split_dot sub) \<and> top_level sub \<in> dom tribe_map)
        [''4.3.1'', ''4.3.2'']"
    by (simp add: top_level_def tribe_map_def)
  show ?thesis
    using resolver_one_verdict [OF h, of "[''30'', ''20'']" "''S1''"] w by blast
qed

text \<open>
  Claim C4, as the code has it. The test of line 50 is on the number of characters of the
  label: a matched label of more than one character goes to \<open>prevsub\<close> (sublineage
  evidence), any other to \<open>prevlin\<close> (lineage evidence). For a label whose top-level
  component is a single character, as for the lineages 1 to 7, this is the test on the
  hierarchy depth: one level is lineage evidence, more than one is sublineage evidence.
\<close>

theorem evidence_kind:
  assumes "position_map (POS s) = Some mk" and "Alt mk = ALT s"
  shows "(\<exists>sublin' line.
            get_lineage_detail_step position_map s (sublin, prevlin, prevsub, text_report) =
              Inr (sublin',
                   if 1 < length (Lineage mk) then prevlin else prevlin @ [Lineage mk],
                   if 1 < length (Lineage mk) then prevsub @ [Lineage mk] else prevsub,
                   text_report @ [line]))
       \<and> (length (top_level (Lineage mk)) = 1 \<longrightarrow>
            (\<exists>sublin' line.
               get_lineage_detail_step position_map s (sublin, prevlin, prevsub, text_report) =
                 Inr (sublin',
                      if 1 < length (split_dot (Lineage mk)) then prevlin
                      else prevlin @ [Lineage mk],
                      if 1 < length (split_dot (Lineage mk)) then prevsub @ [Lineage mk]
                      else prevsub,
                      text_report @ [line])))"
proof -
  have g: "\<exists>sublin' line.
            get_lineage_detail_step position_map s (sublin, prevlin, prevsub, text_report) =
              Inr (sublin',
                   if 1 < length (Lineage mk) then prevlin else prevlin @ [Lineage mk],
                   if 1 < length (Lineage mk) then prevsub @ [Lineage mk] else prevsub,
                   text_report @ [line])"
  proof (cases "1 < length (Lineage mk)")
    case True
    with step_sub [where position_map = position_map and s = s and mk = mk and ps = prevsub
        and sl = sublin and pl = prevlin and t = text_report, OF assms True] show ?thesis
      by auto
  next
    case False
    with step_lin [where position_map = position_map and s = s and mk = mk and ps = prevsub
        and sl = sublin and pl = prevlin and t = text_report, OF assms False] show ?thesis
      by auto
  qed
  have e: "(1 < length (split_dot (Lineage mk))) = (1 < length (Lineage mk))"
    if "length (top_level (Lineage mk)) = 1"
    using that depth_by_length [of "Lineage mk"] by (simp add: hd_split_dot_top_level)
  show ?thesis
  proof (intro conjI impI)
    show "\<exists>sublin' line.
            get_lineage_detail_step position_map s (sublin, prevlin, prevsub, text_report) =
              Inr (sublin',
                   if 1 < length (Lineage mk) then prevlin else prevlin @ [Lineage mk],
                   if 1 < length (Lineage mk) then prevsub @ [Lineage mk] else prevsub,
                   text_report @ [line])"
      by (rule g)
  next
    assume t: "length (top_level (Lineage mk)) = 1"
    show "\<exists>sublin' line.
            get_lineage_detail_step position_map s (sublin, prevlin, prevsub, text_report) =
              Inr (sublin',
                   if 1 < length (split_dot (Lineage mk)) then prevlin
                   else prevlin @ [Lineage mk],
                   if 1 < length (split_dot (Lineage mk)) then prevsub @ [Lineage mk]
                   else prevsub,
                   text_report @ [line])"
      unfolding e [OF t] by (rule g)
  qed
qed

text \<open>
  Claim C4 as stated fails: the matched label \<open>10\<close> has no dot, hence exactly one hierarchy
  level, and is recorded as sublineage evidence.
\<close>

theorem evidence_kind_counterexample:
  "split_dot ''10'' = [''10'']
   \<and> get_lineage_detail
       (position_map_of [\<lparr>Position = ''500'', Lineage = ''10'', Alt = ''A''\<rparr>])
       [\<lparr>POS = ''500'', ALT = ''A''\<rparr>] [] =
     Inr (''10'', [], [''10''], [''SNP 500 suggests sub-lineage: 10''])"
  by (simp add: get_lineage_detail_def position_map_of_def Let_def)

theorem evidence_kind_witness:
  "(\<exists>sublin' line.
      get_lineage_detail_step
        (position_map_of [\<lparr>Position = ''500'', Lineage = ''4.3.3'', Alt = ''A''\<rparr>])
        \<lparr>POS = ''500'', ALT = ''A''\<rparr> ([], [''4''], [], [''SNP 7 suggests lineage: 4'']) =
      Inr (sublin', [''4''], [''4.3.3''], [''SNP 7 suggests lineage: 4'', line]))"
proof -
  have p: "position_map_of [\<lparr>Position = ''500'', Lineage = ''4.3.3'', Alt = ''A''\<rparr>]
      (POS \<lparr>POS = ''500'', ALT = ''A''\<rparr>) =
      Some \<lparr>Position = ''500'', Lineage = ''4.3.3'', Alt = ''A''\<rparr>"
    by (simp add: position_map_of_def)
  have a: "Alt \<lparr>Position = ''500'', Lineage = ''4.3.3'', Alt = ''A''\<rparr> =
      ALT \<lparr>POS = ''500'', ALT = ''A''\<rparr>"
    by simp
  have t: "length (top_level (Lineage \<lparr>Position = ''500'', Lineage = ''4.3.3'', Alt = ''A''\<rparr>)) = 1"
    by (simp add: top_level_def)
  have d: "1 < length (split_dot (Lineage \<lparr>Position = ''500'', Lineage = ''4.3.3'', Alt = ''A''\<rparr>))"
    by simp
  from evidence_kind [where position_map =
        "position_map_of [\<lparr>Position = ''500'', Lineage = ''4.3.3'', Alt = ''A''\<rparr>]"
      and s = "\<lparr>POS = ''500'', ALT = ''A''\<rparr>"
      and mk = "\<lparr>Position = ''500'', Lineage = ''4.3.3'', Alt = ''A''\<rparr>"
      and sublin = "[]" and prevlin = "[''4'']" and prevsub = "[]"
      and text_report = "[''SNP 7 suggests lineage: 4'']", OF p a] t
  have "\<exists>sublin' line.
      get_lineage_detail_step
        (position_map_of [\<lparr>Position = ''500'', Lineage = ''4.3.3'', Alt = ''A''\<rparr>])
        \<lparr>POS = ''500'', ALT = ''A''\<rparr> ([], [''4''], [], [''SNP 7 suggests lineage: 4'']) =
      Inr (sublin',
           if 1 < length (split_dot (Lineage \<lparr>Position = ''500'', Lineage = ''4.3.3'', Alt = ''A''\<rparr>))
           then [''4'']
           else [''4''] @ [Lineage \<lparr>Position = ''500'', Lineage = ''4.3.3'', Alt = ''A''\<rparr>],
           if 1 < length (split_dot (Lineage \<lparr>Position = ''500'', Lineage = ''4.3.3'', Alt = ''A''\<rparr>))
           then [] @ [Lineage \<lparr>Position = ''500'', Lineage = ''4.3.3'', Alt = ''A''\<rparr>]
           else [],
           [''SNP 7 suggests lineage: 4''] @ [line])"
    by blast
  then show ?thesis
    unfolding if_P [OF d] by simp
qed

text \<open>
  Claim C5. With two or more lineage labels collected, the verdict is
  \<open>mixed lineage(s)\<close> with the line about missing concordance as soon as one label
  differs from the first; when all labels are the same string, the verdict is the call
  of that label (its code and its display name in \<open>tribe_map\<close>).
\<close>

theorem multiple_lineage_labels:
  assumes "get_lineage_detail (position_map_of markers) snp_data [] =
             Inr (sublin, l0 # l1 # rest, prevsub, lines)"
    and "animal_lines animal_map (tags_of snps_iter) [] = Inr header"
  shows "((\<exists>l\<in>set (l1 # rest). l \<noteq> l0) \<longrightarrow>
          parse_lineage snps_iter markers snp_data sample_id =
            Inr ([[''Sample ID'', ''Lineage'', ''Lineage Name''],
                  [sample_id, ''mixed lineage(s)'', ''mixed lineage(s)'']],
                 header @ lines @
                   [''no concordance between predicted lineage and sublineage(s)'']))
       \<and> ((\<forall>l\<in>set (l1 # rest). l = l0) \<longrightarrow>
          (\<forall>name. tribe_map l0 = Some name \<longrightarrow>
             parse_lineage snps_iter markers snp_data sample_id =
               Inr ([[''Sample ID'', ''Lineage'', ''Lineage Name''], [sample_id, l0, name]],
                    header @ lines @ [''Lineage: '' @ l0 @ '' '' @ name])))"
proof -
  have r: "parse_lineage snps_iter markers snp_data sample_id =
      report_multiple_prevlin sample_id (\<exists>l\<in>set (l1 # rest). l \<noteq> l0) (l0 # l1 # rest)
        ([[''Sample ID'', ''Lineage'', ''Lineage Name'']], header @ lines)"
    unfolding parse_lineage_resolve [OF assms]
    by (simp add: resolve_def check_multiple_discordance_iff del: set_simps)
  show ?thesis
    unfolding r by (auto simp: report_multiple_prevlin_def report_prevlin_def index_def)
qed

theorem multiple_lineage_labels_witness:
  "parse_lineage [''10'', ''20'']
     [\<lparr>Position = ''10'', Lineage = ''2'', Alt = ''A''\<rparr>,
      \<lparr>Position = ''20'', Lineage = ''4'', Alt = ''C''\<rparr>]
     [\<lparr>POS = ''10'', ALT = ''A''\<rparr>, \<lparr>POS = ''20'', ALT = ''C''\<rparr>] ''S1'' =
   Inr ([[''Sample ID'', ''Lineage'', ''Lineage Name''],
         [''S1'', ''mixed lineage(s)'', ''mixed lineage(s)'']],
        [''SNP 10 suggests lineage: 2'', ''SNP 20 suggests lineage: 4'',
         ''no concordance between predicted lineage and sublineage(s)''])
   \<and> parse_lineage [''10'', ''20'']
     [\<lparr>Position = ''10'', Lineage = ''3'', Alt = ''A''\<rparr>,
      \<lparr>Position = ''20'', Lineage = ''3'', Alt = ''C''\<rparr>]
     [\<lparr>POS = ''10'', ALT = ''A''\<rparr>, \<lparr>POS = ''20'', ALT = ''C''\<rparr>] ''S1'' =
   Inr ([[''Sample ID'', ''Lineage'', ''Lineage Name''],
         [''S1'', ''3'', ''East-African-Indian'']],
        [''SNP 10 suggests lineage: 3'', ''SNP 20 suggests lineage: 3'',
         ''Lineage: 3 East-African-Indian''])"
proof -
  have a: "get_lineage_detail
      (position_map_of [\<lparr>Position = ''10'', Lineage = ''2'', Alt = ''A''\<rparr>,
                        \<lparr>Position = ''20'', Lineage = ''4'', Alt = ''C''\<rparr>])
      [\<lparr>POS = ''10'', ALT = ''A''\<rparr>, \<lparr>POS = ''20'', ALT = ''C''\<rparr>] [] =
    Inr ([], [''2'', ''4''], [], [''SNP 10 suggests lineage: 2'', ''SNP 20 suggests lineage: 4''])"
    by (simp add: get_lineage_detail_def position_map_of_def Let_def)
  have b: "get_lineage_detail
      (position_map_of [\<lparr>Position = ''10'', Lineage = ''3'', Alt = ''A''\<rparr>,
                        \<lparr>Position = ''20'', Lineage = ''3'', Alt = ''C''\<rparr>])
      [\<lparr>POS = ''10'', ALT = ''A''\<rparr>, \<lparr>POS = ''20'', ALT = ''C''\<rparr>] [] =
    Inr ([], [''3'', ''3''], [], [''SNP 10 suggests lineage: 3'', ''SNP 20 suggests lineage: 3''])"
    by (simp add: get_lineage_detail_def position_map_of_def Let_def)
  have h: "animal_lines animal_map (tags_of [''10'', ''20'']) [] = Inr []"
    by (simp add: tags_of_def snp_tags_def snp_tags_items_def animal_map_def)
  have t: "tribe_map ''3'' = Some ''East-African-Indian''" by (simp add: tribe_map_def)
  show ?thesis
    using multiple_lineage_labels [OF a h, of "''S1''"]
      multiple_lineage_labels [OF b h, of "''S1''"] t
    by simp
qed

text \<open>
  Claim C6, as the code has it. The script has two discordance checks. In
  \<open>_check_discordance\<close>, which runs when no lineage label was collected, a sublineage label
  is tested against the deepest candidate by the first two dot-separated components of
  both: the test gives the same answer (or the same exception) with the two labels
  exchanged, components after the second play no role, \<open>4.3.1\<close> and \<open>4.3.2\<close> are
  concordant, \<open>4.3.1\<close> and \<open>4.2.1\<close> are discordant, in either order. In
  \<open>_check_sublin_discordance\<close>, which runs when exactly one lineage label \<open>l\<close> was collected,
  only the top-level component is read: a sublineage label and the deepest candidate are
  concordant exactly when the top-level component of each is \<open>l\<close>, again the same with the
  two labels exchanged, so that \<open>4.3.1\<close> and \<open>4.2.1\<close> are concordant there under the
  lineage label \<open>4\<close>.
\<close>

theorem discordance_checks:
  "discordant a b = discordant b a
   \<and> (2 \<le> length a \<and> 2 \<le> length b \<longrightarrow> discordant a b = Inr (take 2 a \<noteq> take 2 b))
   \<and> discordant (split_dot ''4.3.1'') (split_dot ''4.3.2'') = Inr False
   \<and> discordant (split_dot ''4.3.1'') (split_dot ''4.2.1'') = Inr True
   \<and> check_discordance ''4.3.1'' [''4.3.1'', ''4.3.2''] = Inr (False, [''4'', ''3'', ''1''])
   \<and> check_discordance ''4.3.2'' [''4.3.2'', ''4.3.1''] = Inr (False, [''4'', ''3'', ''2''])
   \<and> check_discordance ''4.3.1'' [''4.3.1'', ''4.2.1''] = Inr (True, [''4'', ''3'', ''1''])
   \<and> check_discordance ''4.2.1'' [''4.2.1'', ''4.3.1''] = Inr (True, [''4'', ''2'', ''1''])
   \<and> sublin_discordant (split_dot x) [l] (split_dot y) =
       Inr (top_level x \<noteq> l \<or> top_level y \<noteq> l)
   \<and> sublin_discordant (split_dot x) [l] (split_dot y) =
       sublin_discordant (split_dot y) [l] (split_dot x)
   \<and> check_sublin_discordance [''4''] (split_dot ''4.3.1'') [''4.3.1'', ''4.2.1''] = Inr False
   \<and> check_sublin_discordance [''4''] (split_dot ''4.2.1'') [''4.2.1'', ''4.3.1''] = Inr False
   \<and> check_sublin_discordance [''4''] (split_dot ''4.3.1'') [''4.3.1'', ''2.2.1''] = Inr True"
proof -
  have "discordant a b = discordant b a" by (rule discordant_sym)
  moreover have "2 \<le> length a \<and> 2 \<le> length b \<longrightarrow> discordant a b = Inr (take 2 a \<noteq> take 2 b)"
    using discordant_first_two by blast
  moreover have "discordant (split_dot ''4.3.1'') (split_dot ''4.3.2'') = Inr False"
    "discordant (split_dot ''4.3.1'') (split_dot ''4.2.1'') = Inr True"
    by (simp_all add: discordant_def index_def)
  moreover have "check_discordance ''4.3.1'' [''4.3.1'', ''4.3.2''] = Inr (False, [''4'', ''3'', ''1''])"
    "check_discordance ''4.3.2'' [''4.3.2'', ''4.3.1''] = Inr (False, [''4'', ''3'', ''2''])"
    "check_discordance ''4.3.1'' [''4.3.1'', ''4.2.1''] = Inr (True, [''4'', ''3'', ''1''])"
    "check_discordance ''4.2.1'' [''4.2.1'', ''4.3.1''] = Inr (True, [''4'', ''2'', ''1''])"
    by (simp_all add: check_discordance_def discordant_def index_def)
  moreover have t: "sublin_discordant (split_dot x) [l] (split_dot y) =
      Inr (top_level x \<noteq> l \<or> top_level y \<noteq> l)" for x y
    unfolding sublin_discordant_eq by auto
  moreover have "sublin_discordant (split_dot x) [l] (split_dot y) =
      sublin_discordant (split_dot y) [l] (split_dot x)"
    unfolding t by auto
  moreover have
    "check_sublin_discordance [''4''] (split_dot ''4.3.1'') [''4.3.1'', ''4.2.1''] = Inr False"
    "check_sublin_discordance [''4''] (split_dot ''4.2.1'') [''4.2.1'', ''4.3.1''] = Inr False"
    "check_sublin_discordance [''4''] (split_dot ''4.3.1'') [''4.3.1'', ''2.2.1''] = Inr True"
    by (simp_all add: sublin_discordant_def index_def)
  ultimately show ?thesis by blast
qed

text \<open>
  Claim C6 as stated fails on the second check: with the lineage label \<open>4\<close> collected, the
  labels \<open>4.3.1\<close> and \<open>4.2.1\<close>, which differ in their second component, are not
  discordant, and the run reports lineage \<open>4\<close>.
\<close>

theorem sublin_discordance_counterexample:
  "check_sublin_discordance [''4''] (split_dot ''4.3.1'') [''4.3.1'', ''4.2.1''] = Inr False
   \<and> parse_lineage [''10'', ''20'', ''30'']
       [\<lparr>Position = ''10'', Lineage = ''4'', Alt = ''A''\<rparr>,
        \<lparr>Position = ''20'', Lineage = ''4.3.1'', Alt = ''C''\<rparr>,
        \<lparr>Position = ''30'', Lineage = ''4.2.1'', Alt = ''G''\<rparr>]
       [\<lparr>POS = ''10'', ALT = ''A''\<rparr>, \<lparr>POS = ''20'', ALT = ''C''\<rparr>,
        \<lparr>POS = ''30'', ALT = ''G''\<rparr>] ''S1'' =
     Inr ([[''Sample ID'', ''Lineage'', ''Lineage Name''], [''S1'', ''4'', ''Euro-American'']],
          [''SNP 10 suggests lineage: 4'', ''SNP 20 suggests sub-lineage: 4.3.1'',
           ''SNP 30 suggests sub-lineage: 4.2.1'', ''Lineage: 4 Euro-American''])"
  by (simp add: parse_lineage_def position_map_of_def tags_of_def animals_of_def animal_map_def
      snp_tags_def snp_tags_items_def get_lineage_detail_def resolve_def
      sublin_discordant_def index_def report_tribe_def tribe_map_def Let_def)

theorem discordance_checks_witness:
  "discordant [''4'', ''3'', ''1''] [''4'', ''2'', ''1'', ''7''] = Inr True
   \<and> discordant [''4'', ''2'', ''1'', ''7''] [''4'', ''3'', ''1''] = Inr True"
proof -
  have l: "2 \<le> length [''4'', ''3'', ''1''] \<and> 2 \<le> length [''4'', ''2'', ''1'', ''7'']"
    by simp
  have n: "take 2 [''4'', ''3'', ''1''] \<noteq> take 2 [''4'', ''2'', ''1'', ''7'']"
    by (simp add: numeral_2_eq_2)
  from discordance_checks [of "[''4'', ''3'', ''1'']" "[''4'', ''2'', ''1'', ''7'']"]
  have "discordant [''4'', ''3'', ''1''] [''4'', ''2'', ''1'', ''7''] =
          discordant [''4'', ''2'', ''1'', ''7''] [''4'', ''3'', ''1'']"
    and "discordant [''4'', ''3'', ''1''] [''4'', ''2'', ''1'', ''7''] =
          Inr (take 2 [''4'', ''3'', ''1''] \<noteq> take 2 [''4'', ''2'', ''1'', ''7''])"
    using l by blast+
  with n show ?thesis by simp
qed

text \<open>
  Claim C7. A variant call changes the evidence lists and the narrative only when its
  position is a key of the marker mapping and the marker's allele equals the observed one;
  in particular a call whose position is in both tables with another allele leaves all of
  them as they were. So the extraction gives the same result as on the matching calls
  alone, and it collects one label and one narrative line per matching call.
\<close>

theorem evidence_only_on_match:
  "(\<not> matched position_map s \<longrightarrow> get_lineage_detail_step position_map s st = Inr st)
   \<and> (position_map (POS s) = Some mk \<and> Alt mk \<noteq> ALT s \<longrightarrow>
        get_lineage_detail_step position_map s st = Inr st)
   \<and> get_lineage_detail position_map snp_data text_report =
       get_lineage_detail position_map (filter (matched position_map) snp_data) text_report
   \<and> (\<exists>sublin prevlin prevsub lines.
        get_lineage_detail position_map snp_data text_report =
          Inr (sublin, prevlin, prevsub, text_report @ lines)
        \<and> length prevlin + length prevsub = length (filter (matched position_map) snp_data)
        \<and> length lines = length (filter (matched position_map) snp_data))"
proof -
  have 1: "\<not> matched position_map s \<longrightarrow> get_lineage_detail_step position_map s st = Inr st"
    using step_skip step_mismatch by (auto simp: matched_def split: option.splits)
  have 2: "position_map (POS s) = Some mk \<and> Alt mk \<noteq> ALT s \<longrightarrow>
        get_lineage_detail_step position_map s st = Inr st"
    using step_mismatch by blast
  have 3: "get_lineage_detail position_map snp_data text_report =
       get_lineage_detail position_map (filter (matched position_map) snp_data) text_report"
    unfolding get_lineage_detail_def by (rule loop_filter)
  obtain sublin prevlin prevsub lines where
    d: "get_lineage_detail position_map snp_data [] = Inr (sublin, prevlin, prevsub, lines)"
    using detail_total by blast
  then have "get_lineage_detail position_map snp_data text_report =
      Inr (sublin, prevlin, prevsub, text_report @ lines)"
    by (simp add: detail_frame [of position_map snp_data text_report])
  moreover have "length prevlin + length prevsub = length (filter (matched position_map) snp_data)
      \<and> length lines = length (filter (matched position_map) snp_data)"
    using loop_count [of position_map snp_data "[]" "[]" "[]" "[]" sublin prevlin prevsub lines] d
    by (simp add: get_lineage_detail_def)
  ultimately show ?thesis using 1 2 3 by blast
qed

theorem evidence_only_on_match_witness:
  "get_lineage_detail_step
     (position_map_of [\<lparr>Position = ''500'', Lineage = ''4'', Alt = ''A''\<rparr>])
     \<lparr>POS = ''500'', ALT = ''G''\<rparr> ([], [''2''], [], [''SNP 7 suggests lineage: 2'']) =
   Inr ([], [''2''], [], [''SNP 7 suggests lineage: 2''])"
proof -
  have p: "position_map_of [\<lparr>Position = ''500'', Lineage = ''4'', Alt = ''A''\<rparr>]
      (POS \<lparr>POS = ''500'', ALT = ''G''\<rparr>) =
      Some \<lparr>Position = ''500'', Lineage = ''4'', Alt = ''A''\<rparr>
    \<and> Alt \<lparr>Position = ''500'', Lineage = ''4'', Alt = ''A''\<rparr>
      \<noteq> ALT \<lparr>POS = ''500'', ALT = ''G''\<rparr>"
    by (simp add: position_map_of_def)
  have m: "\<not> matched (position_map_of [\<lparr>Position = ''500'', Lineage = ''4'', Alt = ''A''\<rparr>])
      \<lparr>POS = ''500'', ALT = ''G''\<rparr>"
    by (simp add: matched_def position_map_of_def)
  from evidence_only_on_match [where position_map =
        "position_map_of [\<lparr>Position = ''500'', Lineage = ''4'', Alt = ''A''\<rparr>]"
      and s = "\<lparr>POS = ''500'', ALT = ''G''\<rparr>"
      and mk = "\<lparr>Position = ''500'', Lineage = ''4'', Alt = ''A''\<rparr>"
      and st = "([], [''2''], [], [''SNP 7 suggests lineage: 2''])"
      and snp_data = "[]" and text_report = "[]"] p m
  show ?thesis by blast
qed

text \<open>
  Claim C8. With no lineage and no sublineage label collected, none of the four animal
  positions observed, and neither position 931123 nor position 1759252 observed, the verdict
  row is lineage \<open>4\<close>, \<open>Euro-American\<close>, and the narrative consists of the two
  absence notes (lineage 4, sublineage 4.9) followed by the final lineage line.
\<close>

theorem absence_inference:
  assumes "get_lineage_detail (position_map_of markers) snp_data [] = Inr (sublin, [], [], lines)"
    and "set snps_iter = POS ` set snp_data"
    and "POS ` set snp_data \<inter> {''2831482'', ''2289073'', ''8624'', ''2726378''} = {}"
    and "''931123'' \<notin> POS ` set snp_data"
    and "''1759252'' \<notin> POS ` set snp_data"
  shows "parse_lineage snps_iter markers snp_data sample_id =
      Inr ([[''Sample ID'', ''Lineage'', ''Lineage Name''], [sample_id, ''4'', ''Euro-American'']],
           [''Absence of SNP 931123 suggests lineage 4'',
            ''Absence of SNP 1759252 suggests sublineage 4.9'',
            ''Lineage: 4 Euro-American''])"
proof -
  have sl: "sublin = []" using detail_invD(3) [OF assms(1)] by simp
  have ls: "lines = []" using detail_no_evidence assms(1) by blast
  have an: "\<not> animals_of (tags_of snps_iter)"
    using assms(2,3) by (auto simp: animals_of_iff tag_positions)
  have t1: "''linfour'' \<notin> tags_of snps_iter" using assms(2,4) by (simp add: tag_positions)
  have t2: "''hrv37'' \<notin> tags_of snps_iter" using assms(2,5) by (simp add: tag_positions)
  show ?thesis
    unfolding parse_lineage_resolve [OF assms(1) animal_lines_none [OF an]] sl ls
      resolve_no_evidence
    using an t1 t2 by (simp add: report_linfour_def)
qed

theorem absence_inference_witness:
  "parse_lineage [''500'']
     [\<lparr>Position = ''931123'', Lineage = '''', Alt = ''A''\<rparr>,
      \<lparr>Position = ''1759252'', Lineage = '''', Alt = ''G''\<rparr>]
     [\<lparr>POS = ''500'', ALT = ''T''\<rparr>] ''S1'' =
   Inr ([[''Sample ID'', ''Lineage'', ''Lineage Name''], [''S1'', ''4'', ''Euro-American'']],
        [''Absence of SNP 931123 suggests lineage 4'',
         ''Absence of SNP 1759252 suggests sublineage 4.9'',
         ''Lineage: 4 Euro-American''])"
proof -
  have h1: "get_lineage_detail
      (position_map_of [\<lparr>Position = ''931123'', Lineage = '''', Alt = ''A''\<rparr>,
                        \<lparr>Position = ''1759252'', Lineage = '''', Alt = ''G''\<rparr>])
      [\<lparr>POS = ''500'', ALT = ''T''\<rparr>] [] = Inr ([], [], [], [])"
    by (simp add: get_lineage_detail_def position_map_of_def)
  have h2: "set [''500''] = POS ` set [\<lparr>POS = ''500'', ALT = ''T''\<rparr>]" by simp
  have h3: "POS ` set [\<lparr>POS = ''500'', ALT = ''T''\<rparr>]
      \<inter> {''2831482'', ''2289073'', ''8624'', ''2726378''} = {}" by simp
  have h4: "''931123'' \<notin> POS ` set [\<lparr>POS = ''500'', ALT = ''T''\<rparr>]" by simp
  have h5: "''1759252'' \<notin> POS ` set [\<lparr>POS = ''500'', ALT = ''T''\<rparr>]" by simp
  show ?thesis by (rule absence_inference [OF h1 h2 h3 h4 h5])
qed

text \<open>
  Claim C9. When the extraction collects exactly one lineage label and no sublineage label,
  the run ends in \<open>_report_prevlin\<close>: the verdict row carries that label and its display
  name from \<open>tribe_map\<close>, whatever animal tags are present. The animal tags only
  contribute the header lines at the front of the narrative. The display name exists for
  the seven keys of \<open>tribe_map\<close>.
\<close>

theorem single_lineage_ignores_animals:
  assumes "get_lineage_detail (position_map_of markers) snp_data [] = Inr (sublin, [l], [], lines)"
    and "animal_lines animal_map (tags_of snps_iter) [] = Inr header"
    and "tribe_map l = Some name"
  shows "parse_lineage snps_iter markers snp_data sample_id =
      Inr ([[''Sample ID'', ''Lineage'', ''Lineage Name''], [sample_id, l, name]],
           header @ lines @ [''Lineage: '' @ l @ '' '' @ name])"
proof -
  have "sublin = []" using detail_invD(3) [OF assms(1)] by simp
  then show ?thesis
    unfolding parse_lineage_resolve [OF assms(1,2)]
    using assms(3) by (simp add: resolve_def report_prevlin_def index_def)
qed

theorem single_lineage_ignores_animals_witness:
  "parse_lineage [''8624'', ''10'']
     [\<lparr>Position = ''10'', Lineage = ''4'', Alt = ''A''\<rparr>]
     [\<lparr>POS = ''10'', ALT = ''A''\<rparr>, \<lparr>POS = ''8624'', ALT = ''G''\<rparr>] ''S1'' =
   Inr ([[''Sample ID'', ''Lineage'', ''Lineage Name''], [''S1'', ''4'', ''Euro-American'']],
        [''SNP 8624 suggests M. bovis-BCG'', ''SNP 10 suggests lineage: 4'',
         ''Lineage: 4 Euro-American''])"
proof -
  have h1: "get_lineage_detail
      (position_map_of [\<lparr>Position = ''10'', Lineage = ''4'', Alt = ''A''\<rparr>])
      [\<lparr>POS = ''10'', ALT = ''A''\<rparr>, \<lparr>POS = ''8624'', ALT = ''G''\<rparr>] [] =
    Inr ([], [''4''], [], [''SNP 10 suggests lineage: 4''])"
    by (simp add: get_lineage_detail_def position_map_of_def Let_def)
  have h2: "animal_lines animal_map (tags_of [''8624'', ''10'']) [] =
    Inr [''SNP 8624 suggests M. bovis-BCG'']"
    by (simp add: tags_of_def snp_tags_def snp_tags_items_def tag_snps_def animal_map_def)
  have h3: "tribe_map ''4'' = Some ''Euro-American''"
    by (simp add: tribe_map_def)
  show ?thesis
    using single_lineage_ignores_animals [OF h1 h2 h3, of "''S1''"] by simp
qed

text \<open>
  Claim C10. The only order the program does not fix is the iteration order of the set
  \<open>snps\<close>, from which the set \<open>tags\<close> is built. Two runs on the same marker rows, variant
  rows and sample identifier, whatever the order in which each iterates over \<open>snps\<close>,
  end alike: the same exception, or the same verdict rows and the same narrative lines,
  from which the two output files are written.
\<close>

theorem parse_lineage_deterministic:
  assumes "set snps_iter1 = POS ` set snp_data" and "set snps_iter2 = POS ` set snp_data"
  shows "parse_lineage snps_iter1 markers snp_data sample_id =
         parse_lineage snps_iter2 markers snp_data sample_id"
proof -
  have "tags_of snps_iter1 = tags_of snps_iter2"
    using assms by (auto simp: tags_of_iff)
  then show ?thesis by (simp add: parse_lineage_def)
qed

theorem parse_lineage_deterministic_witness:
  "parse_lineage [''10'', ''8624'', ''20'']
     [\<lparr>Position = ''10'', Lineage = ''4.3.1'', Alt = ''A''\<rparr>]
     [\<lparr>POS = ''10'', ALT = ''A''\<rparr>, \<lparr>POS = ''8624'', ALT = ''G''\<rparr>,
      \<lparr>POS = ''20'', ALT = ''G''\<rparr>, \<lparr>POS = ''10'', ALT = ''A''\<rparr>] ''S1'' =
   parse_lineage [''8624'', ''20'', ''10'', ''20'']
     [\<lparr>Position = ''10'', Lineage = ''4.3.1'', Alt = ''A''\<rparr>]
     [\<lparr>POS = ''10'', ALT = ''A''\<rparr>, \<lparr>POS = ''8624'', ALT = ''G''\<rparr>,
      \<lparr>POS = ''20'', ALT = ''G''\<rparr>, \<lparr>POS = ''10'', ALT = ''A''\<rparr>] ''S1''"
proof -
  have a: "set [''10'', ''8624'', ''20''] =
      POS ` set [\<lparr>POS = ''10'', ALT = ''A''\<rparr>, \<lparr>POS = ''8624'', ALT = ''G''\<rparr>,
                 \<lparr>POS = ''20'', ALT = ''G''\<rparr>, \<lparr>POS = ''10'', ALT = ''A''\<rparr>]"
    by auto
  have b: "set [''8624'', ''20'', ''10'', ''20''] =
      POS ` set [\<lparr>POS = ''10'', ALT = ''A''\<rparr>, \<lparr>POS = ''8624'', ALT = ''G''\<rparr>,
                 \<lparr>POS = ''20'', ALT = ''G''\<rparr>, \<lparr>POS = ''10'', ALT = ''A''\<rparr>]"
    by auto
  show ?thesis by (rule parse_lineage_deterministic [OF a b])
qed

end
